theory Spec2Isabelle
  imports Complex_Main "HOL-Library.AList" "HOL-Library.Multiset" "HOL-Library.Log_Nat"
begin

section \<open>Python values\<close>

text \<open>
  The transfer records handled by \<^verbatim>\<open>alchemy_client.py\<close> are whatever
  \<^verbatim>\<open>response.json()\<close> produced: nested JSON values. A float is a finite
  rational (every double is one), an infinity or a NaN; Python's \<^verbatim>\<open>json\<close>
  module yields the last three for \<^verbatim>\<open>1e999\<close>, \<^verbatim>\<open>-Infinity\<close> and
  \<^verbatim>\<open>NaN\<close>. A dict is the association list of its items, read with \<open>map_of\<close>; the
  keys of a dict are distinct. Strings are lists of code points below 256.
\<close>

datatype pyfloat = Finite rat | PosInf | NegInf | NaN

datatype json =
    JNull
  | JBool bool
  | JInt int
  | JFloat pyfloat
  | JStr string
  | JArr "json list"
  | JObj "(string \<times> json) list"

datatype exn =
    AttributeError
  | KeyError
  | OverflowError
  | TypeError
  | ValueError
  | Exception

subsection \<open>\<^verbatim>\<open>str.lower\<close>, \<^verbatim>\<open>str.startswith\<close>\<close>

text \<open>
  Below 256 the cased letters are \<^verbatim>\<open>A\<close> to \<^verbatim>\<open>Z\<close> and the Latin-1 capitals 192 to 222
  (215 is the multiplication sign); each is 32 below its lower-case form.
\<close>

definition lower_char :: "char \<Rightarrow> char" where
  "lower_char c =
     (let n = (of_char c :: nat)
      in if (65 \<le> n \<and> n \<le> 90) \<or> (192 \<le> n \<and> n \<le> 222 \<and> n \<noteq> 215)
         then char_of (n + 32) else c)"

definition py_lower :: "string \<Rightarrow> string" where
  "py_lower s = map lower_char s"

definition startswith :: "string \<Rightarrow> string \<Rightarrow> bool" where
  "startswith s p = (take (length p) s = p)"

subsection \<open>\<^verbatim>\<open>int(s, base)\<close> on a string, for the bases 10 and 16\<close>

text \<open>
  CPython's \<^verbatim>\<open>PyLong_FromString\<close>: surrounding whitespace is dropped, one sign is
  allowed, base 16 allows a \<^verbatim>\<open>0x\<close> or \<^verbatim>\<open>0X\<close> prefix (which one underscore may
  follow), digits may be separated by single underscores, and at least one digit is
  needed. In base 10 more than \<open>int_max_str_digits\<close> digits are refused. Every
  failure is a \<^verbatim>\<open>ValueError\<close>, here \<open>None\<close>.
\<close>

definition py_isspace :: "char \<Rightarrow> bool" where
  "py_isspace c = ((of_char c :: nat) \<in> {9, 10, 11, 12, 13, 32, 133, 160})"

definition digit_value :: "char \<Rightarrow> nat" where
  "digit_value c =
     (let n = (of_char c :: nat)
      in if 48 \<le> n \<and> n \<le> 57 then n - 48
         else if 97 \<le> n \<and> n \<le> 122 then n - 87
         else if 65 \<le> n \<and> n \<le> 90 then n - 55
         else 37)"

definition is_digit :: "nat \<Rightarrow> char \<Rightarrow> bool" where
  "is_digit base c = (digit_value c < base)"

definition underscore :: char where
  "underscore = CHR ''_''"

fun adjacent_underscores :: "string \<Rightarrow> bool" where
  "adjacent_underscores (a # b # r) =
     ((a = underscore \<and> b = underscore) \<or> adjacent_underscores (b # r))"
| "adjacent_underscores _ = False"

definition digits_value :: "nat \<Rightarrow> string \<Rightarrow> nat" where
  "digits_value base ds = fold (\<lambda>c acc. acc * base + digit_value c) ds 0"

definition int_max_str_digits :: nat where
  "int_max_str_digits = 4300"

definition strip_sign :: "string \<Rightarrow> bool \<times> string" where
  "strip_sign s =
     (case s of
        [] \<Rightarrow> (False, s)
      | c # r \<Rightarrow> if c = CHR ''+'' then (False, r)
                 else if c = CHR ''-'' then (True, r)
                 else (False, s))"

definition strip_prefix :: "nat \<Rightarrow> string \<Rightarrow> string" where
  "strip_prefix base s =
     (case s of
        a # b # r \<Rightarrow>
          if base = 16 \<and> a = CHR ''0'' \<and> (b = CHR ''x'' \<or> b = CHR ''X'')
          then (case r of
                  [] \<Rightarrow> r
                | u # r' \<Rightarrow> if u = underscore then r' else r)
          else s
      | _ \<Rightarrow> s)"

definition py_int :: "string \<Rightarrow> nat \<Rightarrow> int option" where
  "py_int s base =
     (let (neg, s2) = strip_sign (dropWhile py_isspace s);
          s3 = strip_prefix base s2;
          tok = takeWhile (\<lambda>c. is_digit base c \<or> c = underscore) s3;
          rest = dropWhile (\<lambda>c. is_digit base c \<or> c = underscore) s3;
          ds = filter (\<lambda>c. c \<noteq> underscore) tok
      in if tok = [] \<or> hd tok = underscore \<or> last tok = underscore
            \<or> adjacent_underscores tok
            \<or> \<not> list_all py_isspace rest
            \<or> (base = 10 \<and> int_max_str_digits < length ds)
         then None
         else Some (if neg then - int (digits_value base ds)
                    else int (digits_value base ds)))"

subsection \<open>\<^verbatim>\<open>int(x)\<close> on a float\<close>

definition truncate :: "rat \<Rightarrow> int" where
  "truncate q = (if 0 \<le> q then \<lfloor>q\<rfloor> else \<lceil>q\<rceil>)"

section \<open>\<^verbatim>\<open>AlchemyClient.calculate_token_balances\<close>\<close>

type_synonym balances = "(string \<times> int) list"

definition zero_address :: string where
  "zero_address = ''0x0000000000000000000000000000000000000000''"

text \<open>\<^verbatim>\<open>transfer.get(key, default)\<close>.\<close>

definition dict_get :: "(string \<times> json) list \<Rightarrow> string \<Rightarrow> json \<Rightarrow> json" where
  "dict_get d k dflt = (case map_of d k of None \<Rightarrow> dflt | Some v \<Rightarrow> v)"

text \<open>The method call \<^verbatim>\<open>.lower()\<close>: only a \<^verbatim>\<open>str\<close> has it.\<close>

definition lower_of :: "json \<Rightarrow> exn + string" where
  "lower_of v = (case v of JStr s \<Rightarrow> Inr (py_lower s) | _ \<Rightarrow> Inl AttributeError)"

text \<open>
  Lines 93 to 101. \<open>Inr None\<close> is \<^verbatim>\<open>continue\<close>: a caught \<^verbatim>\<open>ValueError\<close>, or a
  value that is neither \<^verbatim>\<open>str\<close>, \<^verbatim>\<open>int\<close> nor \<^verbatim>\<open>float\<close>. \<^verbatim>\<open>bool\<close> is a
  subclass of \<^verbatim>\<open>int\<close>. \<^verbatim>\<open>int\<close> of an infinity raises \<^verbatim>\<open>OverflowError\<close>, which
  the \<^verbatim>\<open>except (ValueError, TypeError)\<close> clause does not catch.
\<close>

definition convert_value :: "json \<Rightarrow> exn + int option" where
  "convert_value value_hex =
     (case value_hex of
        JStr s \<Rightarrow> Inr (if startswith s ''0x'' then py_int s 16 else py_int s 10)
      | JInt n \<Rightarrow> Inr (Some n)
      | JBool b \<Rightarrow> Inr (Some (if b then 1 else 0))
      | JFloat f \<Rightarrow>
          (case f of
             Finite q \<Rightarrow> Inr (Some (truncate q))
           | NaN \<Rightarrow> Inr None
           | _ \<Rightarrow> Inl OverflowError)
      | _ \<Rightarrow> Inr None)"

text \<open>
  \<^verbatim>\<open>balances[addr] += v\<close> on a \<^verbatim>\<open>defaultdict(int)\<close>: a missing key reads as 0 and
  is inserted at the end, a present key keeps its place.
\<close>

definition dict_add :: "balances \<Rightarrow> string \<Rightarrow> int \<Rightarrow> balances" where
  "dict_add balances addr v =
     AList.update addr ((case map_of balances addr of None \<Rightarrow> 0 | Some b \<Rightarrow> b) + v) balances"

text \<open>The body of the loop, lines 88 to 108.\<close>

definition process_transfer :: "balances \<Rightarrow> json \<Rightarrow> exn + balances" where
  "process_transfer balances transfer =
     (case transfer of
        JObj d \<Rightarrow>
          (case lower_of (dict_get d ''from'' (JStr [])) of
             Inl e \<Rightarrow> Inl e
           | Inr from_addr \<Rightarrow>
          (case lower_of (dict_get d ''to'' (JStr [])) of
             Inl e \<Rightarrow> Inl e
           | Inr to_addr \<Rightarrow>
          (case convert_value (dict_get d ''value'' (JStr ''0x0'')) of
             Inl e \<Rightarrow> Inl e
           | Inr None \<Rightarrow> Inr balances
           | Inr (Some v) \<Rightarrow>
               (let b1 = (if from_addr \<noteq> [] \<and> from_addr \<noteq> zero_address
                          then dict_add balances from_addr (- v) else balances);
                    b2 = (if to_addr \<noteq> [] \<and> to_addr \<noteq> zero_address
                          then dict_add b1 to_addr v else b1)
                in Inr b2))))
      | _ \<Rightarrow> Inl AttributeError)"

fun accumulate :: "balances \<Rightarrow> json list \<Rightarrow> exn + balances" where
  "accumulate balances [] = Inr balances"
| "accumulate balances (transfer # transfers) =
     (case process_transfer balances transfer of
        Inl e \<Rightarrow> Inl e
      | Inr balances' \<Rightarrow> accumulate balances' transfers)"

definition calculate_token_balances :: "json list \<Rightarrow> exn + balances" where
  "calculate_token_balances transfers =
     (case accumulate [] transfers of
        Inl e \<Rightarrow> Inl e
      | Inr balances \<Rightarrow> Inr (filter (\<lambda>(addr, balance). 0 < balance) balances))"

text \<open>
  The updates one transfer makes to the accumulator, in order, separated from the
  accumulator they are applied to; and the same update on a map.
\<close>

definition transfer_updates :: "json \<Rightarrow> exn + (string \<times> int) list" where
  "transfer_updates transfer =
     (case transfer of
        JObj d \<Rightarrow>
          (case lower_of (dict_get d ''from'' (JStr [])) of
             Inl e \<Rightarrow> Inl e
           | Inr from_addr \<Rightarrow>
          (case lower_of (dict_get d ''to'' (JStr [])) of
             Inl e \<Rightarrow> Inl e
           | Inr to_addr \<Rightarrow>
          (case convert_value (dict_get d ''value'' (JStr ''0x0'')) of
             Inl e \<Rightarrow> Inl e
           | Inr None \<Rightarrow> Inr []
           | Inr (Some v) \<Rightarrow>
               Inr ((if from_addr \<noteq> [] \<and> from_addr \<noteq> zero_address then [(from_addr, - v)] else [])
                    @ (if to_addr \<noteq> [] \<and> to_addr \<noteq> zero_address then [(to_addr, v)] else [])))))
      | _ \<Rightarrow> Inl AttributeError)"

definition apply_updates :: "(string \<times> int) list \<Rightarrow> balances \<Rightarrow> balances" where
  "apply_updates us balances = fold (\<lambda>(addr, v) b. dict_add b addr v) us balances"

definition map_add_to :: "string \<times> int \<Rightarrow> (string \<rightharpoonup> int) \<Rightarrow> (string \<rightharpoonup> int)" where
  "map_add_to u m = m(fst u \<mapsto> (case m (fst u) of None \<Rightarrow> 0 | Some b \<Rightarrow> b) + snd u)"

section \<open>\<^verbatim>\<open>AlchemyClient.is_valid_address\<close>\<close>

text \<open>
  Lines 239 to 256; \<^verbatim>\<open>TokenHolderBot.is_valid_address\<close> is the same function. A value that
  is not a \<^verbatim>\<open>str\<close> is refused at the first test.
\<close>

definition is_valid_address :: "json \<Rightarrow> bool" where
  "is_valid_address address =
     (case address of
        JStr s \<Rightarrow>
          if s = [] then False
          else (let a = (if startswith s ''0x'' then drop 2 s else s)
                in if length a \<noteq> 40 then False
                   else (case py_int a 16 of Some n \<Rightarrow> True | None \<Rightarrow> False))
      | _ \<Rightarrow> False)"

section \<open>\<^verbatim>\<open>AlchemyClient._make_request\<close> and \<^verbatim>\<open>get_asset_transfers\<close>\<close>

text \<open>
  The network is the environment. One HTTP exchange (\<^verbatim>\<open>requests.post\<close>,
  \<^verbatim>\<open>raise_for_status\<close>, \<^verbatim>\<open>response.json()\<close>) either raises or yields the decoded
  body.
\<close>

datatype http_result = RequestException | Body json

text \<open>Truth value of a JSON value, as \<^verbatim>\<open>if x:\<close> and \<^verbatim>\<open>not x\<close> take it.\<close>

definition truthy :: "json \<Rightarrow> bool" where
  "truthy v =
     (case v of
        JNull \<Rightarrow> False
      | JBool b \<Rightarrow> b
      | JInt n \<Rightarrow> n \<noteq> 0
      | JFloat f \<Rightarrow> (case f of Finite q \<Rightarrow> q \<noteq> 0 | _ \<Rightarrow> True)
      | JStr s \<Rightarrow> s \<noteq> []
      | JArr xs \<Rightarrow> xs \<noteq> []
      | JObj d \<Rightarrow> d \<noteq> [])"

text \<open>\<^verbatim>\<open>p in s\<close> on strings.\<close>

definition contains :: "string \<Rightarrow> string \<Rightarrow> bool" where
  "contains s p = list_ex (\<lambda>i. take (length p) (drop i s) = p) [0..<Suc (length s)]"

text \<open>
  Lines 33 to 41, after the exchange. Only a dict without the key \<^verbatim>\<open>error\<close> gives
  a result; on any other body \<^verbatim>\<open>"error" in data\<close>, \<^verbatim>\<open>data['error']['message']\<close> or
  \<^verbatim>\<open>data.get\<close> raises.
\<close>

definition make_request :: "http_result \<Rightarrow> exn + json" where
  "make_request response =
     (case response of
        RequestException \<Rightarrow> Inl Exception
      | Body data \<Rightarrow>
          (case data of
             JObj d \<Rightarrow>
               (case map_of d ''error'' of
                  None \<Rightarrow> Inr (dict_get d ''result'' (JObj []))
                | Some err \<Rightarrow>
                    (case err of
                       JObj ed \<Rightarrow> if ''message'' \<in> fst ` set ed then Inl Exception else Inl KeyError
                     | _ \<Rightarrow> Inl TypeError))
           | JArr xs \<Rightarrow> if JStr ''error'' \<in> set xs then Inl TypeError else Inl AttributeError
           | JStr s \<Rightarrow> if contains s ''error'' then Inl TypeError else Inl AttributeError
           | _ \<Rightarrow> Inl TypeError))"

text \<open>
  What \<^verbatim>\<open>transfers.extend(batch_transfers)\<close> appends: the elements of a list, the
  characters of a string, the keys of a dict; anything else is not iterable
  (\<^verbatim>\<open>TypeError\<close>).
\<close>

definition iterate :: "json \<Rightarrow> exn + json list" where
  "iterate v =
     (case v of
        JArr xs \<Rightarrow> Inr xs
      | JStr s \<Rightarrow> Inr (map (\<lambda>c. JStr [c]) s)
      | JObj d \<Rightarrow> Inr (map (\<lambda>kv. JStr (fst kv)) d)
      | _ \<Rightarrow> Inl TypeError)"

text \<open>
  The server answers a request, which varies only in its \<^verbatim>\<open>pageKey\<close> parameter
  (absent while \<^verbatim>\<open>page_key\<close> is falsy), and moves to a new state.
\<close>

type_synonym 's server = "'s \<Rightarrow> json option \<Rightarrow> http_result \<times> 's"

text \<open>
  One iteration of the loop of lines 48 to 71: the \<^verbatim>\<open>try\<close> block raised (nothing
  was appended), or the page was appended and the loop ends, or it goes on with the
  new page key.
\<close>

datatype 's page = PageError | LastPage "json list" | NextPage "json list" json 's

definition fetch_page :: "'s server \<Rightarrow> 's \<Rightarrow> json \<Rightarrow> 's page" where
  "fetch_page srv st page_key =
     (case srv st (if truthy page_key then Some page_key else None) of
        (response, st') \<Rightarrow>
          (case make_request response of
             Inl e \<Rightarrow> PageError
           | Inr result \<Rightarrow>
               (case result of
                  JObj d \<Rightarrow>
                    (let batch_transfers = dict_get d ''transfers'' (JArr [])
                     in case iterate batch_transfers of
                          Inl e \<Rightarrow> PageError
                        | Inr items \<Rightarrow>
                            (let page_key' = dict_get d ''pageKey'' JNull
                             in if \<not> truthy page_key' \<or> \<not> truthy batch_transfers
                                then LastPage items
                                else NextPage items page_key' st'))
                | _ \<Rightarrow> PageError)))"

partial_function (option) fetch_loop ::
  "'s server \<Rightarrow> 's \<Rightarrow> json \<Rightarrow> json list \<Rightarrow> json list option" where
  "fetch_loop srv st page_key transfers =
     (case fetch_page srv st page_key of
        PageError \<Rightarrow> Some transfers
      | LastPage items \<Rightarrow> Some (transfers @ items)
      | NextPage items page_key' st' \<Rightarrow> fetch_loop srv st' page_key' (transfers @ items))"

definition get_asset_transfers :: "'s server \<Rightarrow> 's \<Rightarrow> json list option" where
  "get_asset_transfers srv st = fetch_loop srv st JNull []"

text \<open>The pages fetched so far when the loop is about to request with \<open>page_key\<close>.\<close>

inductive fetched :: "'s server \<Rightarrow> 's \<Rightarrow> json list list \<Rightarrow> 's \<Rightarrow> json \<Rightarrow> bool"
  for srv :: "'s server" and st0 :: 's where
  fetched_none: "fetched srv st0 [] st0 JNull"
| fetched_page:
    "fetched srv st0 pages st page_key \<Longrightarrow>
     fetch_page srv st page_key = NextPage items page_key' st' \<Longrightarrow>
     fetched srv st0 (pages @ [items]) st' page_key'"

section \<open>\<^verbatim>\<open>AlchemyClient.get_top_holders\<close>\<close>

text \<open>
  \<^verbatim>\<open>sorted(balances.items(), key=lambda x: x[1], reverse=True)\<close>: a stable sort,
  largest balance first, equal balances in the order of the dict.
\<close>

definition sorted_holders :: "balances \<Rightarrow> balances" where
  "sorted_holders balances = sort_key (\<lambda>x. - snd x) balances"

text \<open>\<^verbatim>\<open>xs[:n]\<close>; a negative \<open>n\<close> counts from the end.\<close>

definition slice_to :: "'a list \<Rightarrow> int \<Rightarrow> 'a list" where
  "slice_to xs n = (if 0 \<le> n then take (nat n) xs else take (length xs - nat (- n)) xs)"

text \<open>Lines 128 to 139.\<close>

definition rank_holders :: "balances \<Rightarrow> int \<Rightarrow> balances" where
  "rank_holders balances top_n =
     (if balances = [] then [] else slice_to (sorted_holders balances) top_n)"

text \<open>Lines 119 to 139; the \<^verbatim>\<open>except\<close> clause of line 141 re-raises.\<close>

definition holders_of :: "json list \<Rightarrow> int \<Rightarrow> exn + balances" where
  "holders_of transfers top_n =
     (if transfers = [] then Inr []
      else (case calculate_token_balances transfers of
              Inl e \<Rightarrow> Inl e
            | Inr balances \<Rightarrow> Inr (rank_holders balances top_n)))"

definition get_top_holders :: "'s server \<Rightarrow> 's \<Rightarrow> int \<Rightarrow> (exn + balances) option" where
  "get_top_holders srv st top_n =
     (case get_asset_transfers srv st of
        None \<Rightarrow> None
      | Some transfers \<Rightarrow> Some (holders_of transfers top_n))"

section \<open>\<^verbatim>\<open>AlchemyClient.format_balance\<close>\<close>

text \<open>
  A Python float is the rational it denotes. True division of integers and the
  conversion of an integer to a float give the double nearest to the exact value, ties
  to the even significand (53 bits, least exponent \<open>-1074\<close>), and raise
  \<^verbatim>\<open>OverflowError\<close> from \<open>2 ^ 1024\<close> on. \<^verbatim>\<open>format(x, ".2f")\<close> rounds the exact
  value of the double to two places, ties to even. \<open>decimals\<close> is a natural number,
  as the ERC-20 field is: for a negative exponent \<^verbatim>\<open>10 ** decimals\<close> is a float
  computed by the C library.
\<close>

definition round_half_even :: "rat \<Rightarrow> int" where
  "round_half_even x =
     (let f = \<lfloor>x\<rfloor>; d = x - of_int f
      in if d < 1 / 2 then f
         else if 1 / 2 < d then f + 1
         else if even f then f else f + 1)"

text \<open>\<open>x * 2 ^ k\<close> for an integer \<open>k\<close>.\<close>

definition scale2 :: "rat \<Rightarrow> int \<Rightarrow> rat" where
  "scale2 x k = (if 0 \<le> k then x * 2 ^ nat k else x / 2 ^ nat (- k))"

text \<open>\<open>\<lfloor>log 2 a\<rfloor>\<close> for a positive rational.\<close>

definition floor_log2 :: "rat \<Rightarrow> int" where
  "floor_log2 a =
     (let (n, d) = quotient_of a;
          k = bitlen n - bitlen d
      in if scale2 1 k \<le> a then k else k - 1)"

definition nearest_double :: "rat \<Rightarrow> rat" where
  "nearest_double q =
     (if q = 0 then 0
      else (let a = \<bar>q\<bar>;
                ex = max (floor_log2 a - 52) (- 1074);
                m = round_half_even (scale2 a (- ex));
                r = scale2 (of_int m) ex
            in if q < 0 then - r else r))"

text \<open>\<^verbatim>\<open>a / b\<close> on integers with exact quotient \<open>q\<close>, and \<^verbatim>\<open>float(n)\<close>.\<close>

definition to_float :: "rat \<Rightarrow> exn + rat" where
  "to_float q =
     (let r = nearest_double q in if 2 ^ 1024 \<le> \<bar>r\<bar> then Inl OverflowError else Inr r)"

function show_digits :: "int \<Rightarrow> string" where
  "show_digits n =
     (if n < 10 then [char_of (48 + n)]
      else show_digits (n div 10) @ [char_of (48 + n mod 10)])"
  by pat_completeness auto
termination
  by (relation "measure nat") auto

declare show_digits.simps [simp del]

definition format_fixed :: "nat \<Rightarrow> rat \<Rightarrow> string" where
  "format_fixed k x =
     (let r = round_half_even (\<bar>x\<bar> * 10 ^ k);
          frac = show_digits (r mod 10 ^ k)
      in (if x < 0 then ''-'' else [])
         @ show_digits (r div 10 ^ k) @ ''.'' @ replicate (k - length frac) (CHR ''0'') @ frac)"

text \<open>\<^verbatim>\<open>s.rstrip(c)\<close> for a single character.\<close>

definition rstrip :: "char \<Rightarrow> string \<Rightarrow> string" where
  "rstrip c s = rev (dropWhile (\<lambda>x. x = c) (rev s))"

text \<open>\<^verbatim>\<open>readable_balance\<close> is an \<^verbatim>\<open>int\<close> on the first branch and a \<^verbatim>\<open>float\<close> on the second.\<close>

datatype number = PyInt int | PyFloat rat

definition number_value :: "number \<Rightarrow> rat" where
  "number_value x = (case x of PyInt i \<Rightarrow> of_int i | PyFloat q \<Rightarrow> q)"

text \<open>Lines 220 to 224. A comparison of an \<^verbatim>\<open>int\<close> with a float is exact.\<close>

definition readable_balance :: "int \<Rightarrow> nat \<Rightarrow> exn + number" where
  "readable_balance balance decimals =
     (if balance < 10 ^ 12 then Inr (PyInt balance)
      else (case to_float (of_int balance / of_int (10 ^ decimals)) of
              Inl e \<Rightarrow> Inl e
            | Inr q \<Rightarrow> Inr (PyFloat q)))"

text \<open>Lines 226 to 231.\<close>

definition format_balance :: "int \<Rightarrow> nat \<Rightarrow> exn + string" where
  "format_balance balance decimals =
     (case readable_balance balance decimals of
        Inl e \<Rightarrow> Inl e
      | Inr readable \<Rightarrow>
          if 1000000 \<le> number_value readable then
            (case to_float (number_value readable / 1000000) of
               Inl e \<Rightarrow> Inl e
             | Inr q \<Rightarrow> Inr (format_fixed 2 q @ ''M''))
          else if 1000 \<le> number_value readable then
            (case to_float (number_value readable / 1000) of
               Inl e \<Rightarrow> Inl e
             | Inr q \<Rightarrow> Inr (format_fixed 2 q @ ''K''))
          else
            (case to_float (number_value readable) of
               Inl e \<Rightarrow> Inl e
             | Inr q \<Rightarrow> Inr (rstrip (CHR ''.'') (rstrip (CHR ''0'') (format_fixed 4 q)))))"

section \<open>Example inputs\<close>

text \<open>
  The scenario of the specification: 100 tokens are minted to \<open>A\<close>, of which \<open>A\<close>
  passes 50 on to \<open>B\<close>; and variations on it.
\<close>

definition holder_a :: string where
  "holder_a = ''0xaaaaaaaaaaaaaaaaaaaaaaaaaaaaaaaaaaaaaaaa''"

definition holder_b :: string where
  "holder_b = ''0xbbbbbbbbbbbbbbbbbbbbbbbbbbbbbbbbbbbbbbbb''"

definition mint_to_a :: json where
  "mint_to_a = JObj [(''from'', JStr zero_address), (''to'', JStr holder_a), (''value'', JStr ''0x64'')]"

definition a_pays_b :: json where
  "a_pays_b = JObj [(''from'', JStr holder_a), (''to'', JStr holder_b), (''value'', JStr ''0x32'')]"

definition a_burns :: json where
  "a_burns = JObj [(''from'', JStr holder_a),
                   (''to'', JStr ''0X0000000000000000000000000000000000000000''),
                   (''value'', JStr ''10'')]"

definition gift_to_a :: "(string \<times> json) list" where
  "gift_to_a = [(''to'', JStr holder_a), (''value'', JInt 7)]"

definition junk_value :: "(string \<times> json) list" where
  "junk_value = [(''from'', JStr holder_a), (''to'', JStr holder_b), (''value'', JStr ''abc'')]"

definition infinite_value :: "(string \<times> json) list" where
  "infinite_value =
     [(''from'', JStr holder_a), (''to'', JStr holder_b), (''value'', JFloat PosInf)]"

definition nan_value :: "(string \<times> json) list" where
  "nan_value = [(''from'', JStr holder_a), (''to'', JStr holder_b), (''value'', JFloat NaN)]"

definition signed_forty :: string where
  "signed_forty = CHR ''+'' # replicate 39 (CHR ''a'')"

text \<open>Example servers: the state counts the requests.\<close>

definition first_page :: json where
  "first_page = JObj [(''result'', JObj [(''transfers'', JArr [mint_to_a, a_pays_b]),
                                        (''pageKey'', JStr ''k1'')])]"

definition one_page_then_down :: "nat server" where
  "one_page_then_down n req = (if n = 0 then Body first_page else RequestException, Suc n)"

definition always_down :: "nat server" where
  "always_down n req = (RequestException, Suc n)"

section \<open>Properties of the balance reconstruction\<close>

lemma process_transfer_updates:
  "process_transfer balances t =
     (case transfer_updates t of Inl e \<Rightarrow> Inl e | Inr us \<Rightarrow> Inr (apply_updates us balances))"
  by (simp add: process_transfer_def transfer_updates_def apply_updates_def Let_def
      split: json.splits sum.splits option.splits)

lemma accumulate_Inr_iff:
  "accumulate balances ts = Inr b \<longleftrightarrow>
     (\<forall>t \<in> set ts. \<not> isl (transfer_updates t)) \<and>
     b = apply_updates (concat (map (\<lambda>t. projr (transfer_updates t)) ts)) balances"
proof (induction ts arbitrary: balances)
  case Nil
  show ?case by (auto simp: apply_updates_def)
next
  case (Cons t ts)
  show ?case
  proof (cases "transfer_updates t")
    case (Inl e)
    then show ?thesis by (simp add: process_transfer_updates)
  next
    case (Inr us)
    then show ?thesis
      by (simp add: process_transfer_updates Cons.IH) (simp add: apply_updates_def)
  qed
qed

lemma accumulate_Inl_iff:
  "(\<exists>e. accumulate balances ts = Inl e) \<longleftrightarrow> (\<exists>t \<in> set ts. isl (transfer_updates t))"
proof -
  have "(\<exists>e. accumulate balances ts = Inl e) \<longleftrightarrow> \<not> (\<exists>b. accumulate balances ts = Inr b)"
    by (cases "accumulate balances ts") auto
  then show ?thesis by (simp add: accumulate_Inr_iff)
qed

lemma map_of_dict_add: "map_of (dict_add b k v) = map_add_to (k, v) (map_of b)"
  by (simp add: dict_add_def map_add_to_def update_conv')

lemma distinct_dict_add: "distinct (map fst b) \<Longrightarrow> distinct (map fst (dict_add b k v))"
  by (simp add: dict_add_def distinct_update)

lemma keys_dict_add: "fst ` set (dict_add b k v) = insert k (fst ` set b)"
  by (simp add: dict_add_def dom_update)

lemma map_of_apply_updates:
  "map_of (apply_updates us b) = fold map_add_to us (map_of b)"
  unfolding apply_updates_def
  by (induction us arbitrary: b) (auto simp: map_of_dict_add)

lemma distinct_apply_updates:
  "distinct (map fst b) \<Longrightarrow> distinct (map fst (apply_updates us b))"
  unfolding apply_updates_def
  by (induction us arbitrary: b) (auto simp: distinct_dict_add)

lemma keys_apply_updates:
  "fst ` set (apply_updates us b) = fst ` set us \<union> fst ` set b"
proof (induction us arbitrary: b)
  case Nil
  show ?case by (simp add: apply_updates_def)
next
  case (Cons u us)
  have "apply_updates (u # us) b = apply_updates us (dict_add b (fst u) (snd u))"
    by (simp add: apply_updates_def case_prod_beta)
  then show ?case
    by (simp add: Cons.IH keys_dict_add Un_commute insert_commute)
qed

lemma map_add_to_commute: "map_add_to u \<circ> map_add_to w = map_add_to w \<circ> map_add_to u"
  by (rule ext) (auto simp: map_add_to_def fun_upd_twist split: option.splits)

lemma fold_map_add_to_mset:
  "mset us = mset ws \<Longrightarrow> fold map_add_to us = fold map_add_to ws"
  by (rule fold_multiset_equiv) (simp_all add: map_add_to_commute)

lemma mset_concat_map:
  "mset xs = mset ys \<Longrightarrow> mset (concat (map f xs)) = mset (concat (map f ys))"
proof -
  assume h: "mset xs = mset ys"
  have "\<And>zs. mset (concat (map f zs)) = (\<Sum>z \<in># mset zs. mset (f z))"
    by (simp add: mset_concat sum_mset_sum_list [symmetric] comp_def flip: mset_map)
  with h show ?thesis by simp
qed

lemma map_of_filter_positive:
  "distinct (map fst b) \<Longrightarrow>
   map_of (filter (\<lambda>(addr, balance). 0 < balance) b) k =
     (case map_of b k of None \<Rightarrow> None | Some v \<Rightarrow> if 0 < v then Some v else None)"
proof (induction b)
  case Nil
  show ?case by simp
next
  case (Cons p b)
  then show ?case
    by (cases p) (auto split: option.splits simp: map_of_eq_None_iff image_iff dest!: map_of_SomeD)
qed

lemma distinct_filter_keys:
  "distinct (map fst b) \<Longrightarrow> distinct (map fst (filter P b))"
  by (simp add: distinct_map_filter)

lemma accumulate_distinct:
  "accumulate [] ts = Inr b \<Longrightarrow> distinct (map fst b)"
  by (simp add: accumulate_Inr_iff distinct_apply_updates)

lemma scenario_balances:
  "calculate_token_balances [mint_to_a, a_pays_b] = Inr [(holder_a, 50), (holder_b, 50)]"
  by code_simp

subsection \<open>Order of the transfers, and the filter\<close>

lemma calculate_Inr_iff:
  "calculate_token_balances ts = Inr m \<longleftrightarrow>
     (\<exists>b. accumulate [] ts = Inr b \<and> m = filter (\<lambda>(addr, balance). 0 < balance) b)"
  by (auto simp: calculate_token_balances_def split: sum.splits)

lemma calculate_Inl_iff:
  "(\<exists>e. calculate_token_balances ts = Inl e) \<longleftrightarrow> (\<exists>e. accumulate [] ts = Inl e)"
  by (auto simp: calculate_token_balances_def split: sum.splits)

lemma accumulate_perm_map_of:
  assumes "mset ts' = mset ts" and "accumulate [] ts = Inr b"
  shows "\<exists>b'. accumulate [] ts' = Inr b' \<and> map_of b' = map_of b"
proof -
  let ?us = "\<lambda>xs. concat (map (\<lambda>t. projr (transfer_updates t)) xs)"
  from assms(1) have "set ts' = set ts" by (rule mset_eq_setD)
  with assms(2) have ok: "accumulate [] ts' = Inr (apply_updates (?us ts') [])"
    by (simp add: accumulate_Inr_iff)
  from assms(2) have b: "b = apply_updates (?us ts) []"
    by (simp add: accumulate_Inr_iff)
  from assms(1) have "mset (?us ts') = mset (?us ts)" by (rule mset_concat_map)
  then have "fold map_add_to (?us ts') = fold map_add_to (?us ts)"
    by (rule fold_map_add_to_mset)
  then have "map_of (apply_updates (?us ts') []) = map_of b"
    by (simp add: b map_of_apply_updates)
  with ok show ?thesis by blast
qed

lemma filter_positive_cong:
  assumes "distinct (map fst b)" and "distinct (map fst b')" and "map_of b' = map_of b"
  shows "map_of (filter (\<lambda>(addr, balance). 0 < balance) b') =
         map_of (filter (\<lambda>(addr, balance). 0 < balance) b)"
  by (rule ext) (simp add: map_of_filter_positive assms)

lemma set_eq_of_map_of_eq:
  assumes "distinct (map fst m)" and "distinct (map fst m')" and "map_of m' = map_of m"
  shows "set m' = set m"
proof -
  have "\<And>k v. ((k, v) \<in> set m') = ((k, v) \<in> set m)"
    using assms by (metis map_of_eq_Some_iff)
  then show ?thesis by auto
qed

text \<open>
  Claim C1. Applying \<open>calculate_token_balances\<close> to a permutation of a list of
  transfers gives the same mapping as the list itself: the same items, whatever the order
  the dict holds them in. If the call on the list raises, so does the call on the permutation.
\<close>

theorem calculate_token_balances_permutation:
  assumes "mset transfers' = mset transfers"
  shows "(\<forall>m. calculate_token_balances transfers = Inr m \<longrightarrow>
            (\<exists>m'. calculate_token_balances transfers' = Inr m' \<and>
                  map_of m' = map_of m \<and> set m' = set m)) \<and>
         (\<forall>e. calculate_token_balances transfers = Inl e \<longrightarrow>
            (\<exists>e'. calculate_token_balances transfers' = Inl e'))"
proof (intro conjI allI impI)
  fix m
  assume "calculate_token_balances transfers = Inr m"
  then obtain b where b: "accumulate [] transfers = Inr b"
    and m: "m = filter (\<lambda>(addr, balance). 0 < balance) b"
    by (auto simp: calculate_Inr_iff)
  from accumulate_perm_map_of [OF assms b] obtain b'
    where b': "accumulate [] transfers' = Inr b'" and eq: "map_of b' = map_of b"
    by blast
  let ?m' = "filter (\<lambda>(addr, balance). 0 < balance) b'"
  have d: "distinct (map fst b)" and d': "distinct (map fst b')"
    using b b' by (auto dest: accumulate_distinct)
  have "calculate_token_balances transfers' = Inr ?m'"
    using b' by (simp add: calculate_Inr_iff)
  moreover have meq: "map_of ?m' = map_of m"
    unfolding m using d d' eq by (rule filter_positive_cong)
  moreover have "set ?m' = set m"
    using meq d d' by (intro set_eq_of_map_of_eq) (simp_all add: m distinct_filter_keys)
  ultimately show "\<exists>m'. calculate_token_balances transfers' = Inr m' \<and>
                  map_of m' = map_of m \<and> set m' = set m"
    by blast
next
  fix e
  assume "calculate_token_balances transfers = Inl e"
  then have "\<exists>t \<in> set transfers. isl (transfer_updates t)"
    by (metis calculate_Inl_iff accumulate_Inl_iff)
  moreover from assms have "set transfers' = set transfers" by (rule mset_eq_setD)
  ultimately show "\<exists>e'. calculate_token_balances transfers' = Inl e'"
    by (simp add: calculate_Inl_iff accumulate_Inl_iff)
qed

theorem calculate_token_balances_permutation_witness:
  "mset [a_pays_b, mint_to_a] = mset [mint_to_a, a_pays_b] \<and>
   calculate_token_balances [mint_to_a, a_pays_b] = Inr [(holder_a, 50), (holder_b, 50)] \<and>
   \<not> isl (calculate_token_balances [a_pays_b, mint_to_a]) \<and>
   set (projr (calculate_token_balances [a_pays_b, mint_to_a])) =
     set [(holder_a, 50), (holder_b, 50)]"
proof -
  have p: "mset [a_pays_b, mint_to_a] = mset [mint_to_a, a_pays_b]" by simp
  from calculate_token_balances_permutation [OF p] scenario_balances
  obtain m' where "calculate_token_balances [a_pays_b, mint_to_a] = Inr m'"
    and "set m' = set [(holder_a, 50), (holder_b, 50)]"
    by blast
  then have "\<not> isl (calculate_token_balances [a_pays_b, mint_to_a])"
    and "set (projr (calculate_token_balances [a_pays_b, mint_to_a])) =
         set [(holder_a, 50), (holder_b, 50)]"
    by simp_all
  with p scenario_balances show ?thesis by (intro conjI)
qed

text \<open>
  Claim C2. Every key of the returned mapping has a strictly positive balance: an address
  whose accumulated balance is zero or negative is absent, one whose accumulated balance is
  positive is present with that balance.
\<close>

theorem positive_balances_only:
  assumes "accumulate [] transfers = Inr balances"
  shows "\<exists>m. calculate_token_balances transfers = Inr m \<and>
             (\<forall>(addr, balance) \<in> set m. 0 < balance) \<and>
             (\<forall>addr b. map_of balances addr = Some b \<and> b \<le> 0 \<longrightarrow> addr \<notin> fst ` set m) \<and>
             (\<forall>addr b. map_of balances addr = Some b \<and> 0 < b \<longrightarrow> map_of m addr = Some b)"
proof -
  let ?m = "filter (\<lambda>(addr, balance). 0 < balance) balances"
  have d: "distinct (map fst balances)" using assms by (rule accumulate_distinct)
  have "calculate_token_balances transfers = Inr ?m"
    using assms by (simp add: calculate_Inr_iff)
  moreover have "\<forall>(addr, balance) \<in> set ?m. 0 < balance" by auto
  moreover have "\<forall>addr b. map_of balances addr = Some b \<and> b \<le> 0 \<longrightarrow> addr \<notin> fst ` set ?m"
  proof (intro allI impI)
    fix addr b assume "map_of balances addr = Some b \<and> b \<le> 0"
    then have "map_of ?m addr = None" by (simp add: map_of_filter_positive [OF d])
    then show "addr \<notin> fst ` set ?m" by (simp add: map_of_eq_None_iff)
  qed
  moreover have "\<forall>addr b. map_of balances addr = Some b \<and> 0 < b \<longrightarrow> map_of ?m addr = Some b"
    by (simp add: map_of_filter_positive [OF d])
  ultimately show ?thesis by blast
qed

theorem positive_balances_only_witness:
  "accumulate [] [mint_to_a, a_pays_b, a_pays_b] = Inr [(holder_a, 0), (holder_b, 100)] \<and>
   holder_a \<notin> fst ` set (projr (calculate_token_balances [mint_to_a, a_pays_b, a_pays_b])) \<and>
   map_of (projr (calculate_token_balances [mint_to_a, a_pays_b, a_pays_b])) holder_b = Some 100"
proof -
  have acc: "accumulate [] [mint_to_a, a_pays_b, a_pays_b] = Inr [(holder_a, 0), (holder_b, 100)]"
    by code_simp
  have ne: "holder_b \<noteq> holder_a" by (simp add: holder_a_def holder_b_def)
  from positive_balances_only [OF acc] obtain m
    where m: "calculate_token_balances [mint_to_a, a_pays_b, a_pays_b] = Inr m"
      and le: "\<forall>addr b. map_of [(holder_a, 0), (holder_b, 100 :: int)] addr = Some b \<and> b \<le> 0
                 \<longrightarrow> addr \<notin> fst ` set m"
      and gt: "\<forall>addr b. map_of [(holder_a, 0), (holder_b, 100 :: int)] addr = Some b \<and> 0 < b
                 \<longrightarrow> map_of m addr = Some b"
    by blast
  have "map_of [(holder_a, 0), (holder_b, 100 :: int)] holder_a = Some 0" by simp
  with le have 1: "holder_a \<notin> fst ` set m" by blast
  have "map_of [(holder_a, 0), (holder_b, 100 :: int)] holder_b = Some 100" using ne by simp
  with gt have 2: "map_of m holder_b = Some 100" by force
  from 1 2 m acc show ?thesis by simp
qed

subsection \<open>Keys of the mapping\<close>

lemma lower_char_idem: "lower_char (lower_char c) = lower_char c"
  by (auto simp: lower_char_def Let_def)

lemma py_lower_idem: "py_lower (py_lower s) = py_lower s"
  by (simp add: py_lower_def lower_char_idem)

lemma lower_of_idem: "lower_of v = Inr s \<Longrightarrow> py_lower s = s"
  by (auto simp: lower_of_def py_lower_idem split: json.splits)

lemma transfer_updates_keys:
  assumes "transfer_updates t = Inr us" and "k \<in> fst ` set us"
  shows "k \<noteq> [] \<and> k \<noteq> zero_address \<and> py_lower k = k"
  using assms
  by (auto simp: transfer_updates_def split: json.splits sum.splits option.splits if_splits
      dest: lower_of_idem)

lemma accumulate_keys:
  assumes "accumulate [] ts = Inr b" and "k \<in> fst ` set b"
  shows "k \<noteq> [] \<and> k \<noteq> zero_address \<and> py_lower k = k"
proof -
  from assms(1) have ok: "\<forall>t \<in> set ts. \<not> isl (transfer_updates t)"
    and b: "b = apply_updates (concat (map (\<lambda>t. projr (transfer_updates t)) ts)) []"
    by (simp_all add: accumulate_Inr_iff)
  from assms(2) obtain t where t: "t \<in> set ts" and k: "k \<in> fst ` set (projr (transfer_updates t))"
    unfolding b keys_apply_updates by auto
  from ok t have "transfer_updates t = Inr (projr (transfer_updates t))"
    by (cases "transfer_updates t") auto
  then show ?thesis using k by (rule transfer_updates_keys)
qed

lemma calculate_keys:
  assumes "calculate_token_balances ts = Inr m" and "k \<in> fst ` set m"
  shows "k \<noteq> [] \<and> k \<noteq> zero_address \<and> py_lower k = k"
proof -
  from assms(1) obtain b where b: "accumulate [] ts = Inr b"
    and m: "m = filter (\<lambda>(addr, balance). 0 < balance) b"
    by (auto simp: calculate_Inr_iff)
  from assms(2) have "k \<in> fst ` set b" unfolding m by auto
  with b show ?thesis by (rule accumulate_keys)
qed

text \<open>
  Claim C3. The zero address is never a key of the returned mapping, nor of the
  accumulator, in any letter case: keys are lower-cased before they are compared with it.
\<close>

theorem zero_address_never_a_key:
  assumes "calculate_token_balances transfers = Inr m"
  shows "zero_address \<notin> fst ` set m \<and>
         (\<forall>addr \<in> fst ` set m. py_lower addr \<noteq> zero_address) \<and>
         (\<forall>b. accumulate [] transfers = Inr b \<longrightarrow> zero_address \<notin> fst ` set b)"
proof (intro conjI ballI allI impI)
  show "zero_address \<notin> fst ` set m"
    using calculate_keys [OF assms] by blast
next
  fix addr assume "addr \<in> fst ` set m"
  from calculate_keys [OF assms this] show "py_lower addr \<noteq> zero_address" by simp
next
  fix b assume "accumulate [] transfers = Inr b"
  then show "zero_address \<notin> fst ` set b"
    using accumulate_keys by blast
qed

lemma burn_balances:
  "calculate_token_balances [mint_to_a, a_burns] = Inr [(holder_a, 90)]"
  by code_simp

theorem zero_address_never_a_key_witness:
  "calculate_token_balances [mint_to_a, a_burns] = Inr [(holder_a, 90)] \<and>
   zero_address \<notin> fst ` set [(holder_a, 90 :: int)] \<and>
   py_lower holder_a \<noteq> zero_address"
  using zero_address_never_a_key [OF burn_balances] burn_balances by simp

subsection \<open>Absent and empty address fields\<close>

lemma dict_get_Cons:
  "dict_get ((k, v) # d) k' dflt = (if k' = k then v else dict_get d k' dflt)"
  by (simp add: dict_get_def)

lemma process_transfer_from_absent:
  assumes "map_of d ''from'' = None \<or> map_of d ''from'' = Some (JStr [])"
  shows "process_transfer bal (JObj d) =
         process_transfer bal (JObj ((''from'', JStr zero_address) # d))"
proof -
  have z: "lower_of (JStr zero_address) = Inr zero_address"
    by (simp add: lower_of_def py_lower_def lower_char_def zero_address_def)
  have e: "lower_of (dict_get d ''from'' (JStr [])) = Inr []"
    using assms by (auto simp: dict_get_def lower_of_def py_lower_def)
  show ?thesis
    by (simp add: process_transfer_def dict_get_Cons e z cong: sum.case_cong option.case_cong)
qed

lemma process_transfer_to_absent:
  assumes "map_of d ''to'' = None \<or> map_of d ''to'' = Some (JStr [])"
  shows "process_transfer bal (JObj d) =
         process_transfer bal (JObj ((''to'', JStr zero_address) # d))"
proof -
  have z: "lower_of (JStr zero_address) = Inr zero_address"
    by (simp add: lower_of_def py_lower_def lower_char_def zero_address_def)
  have e: "lower_of (dict_get d ''to'' (JStr [])) = Inr []"
    using assms by (auto simp: dict_get_def lower_of_def py_lower_def)
  show ?thesis
    by (simp add: process_transfer_def dict_get_Cons e z cong: sum.case_cong option.case_cong)
qed

lemma process_transfer_from_absent_effect:
  assumes "map_of d ''from'' = None \<or> map_of d ''from'' = Some (JStr [])"
    and "process_transfer bal (JObj d) = Inr bal'"
  shows "bal' = bal \<or>
         (\<exists>to_addr v. lower_of (dict_get d ''to'' (JStr [])) = Inr to_addr \<and>
                      convert_value (dict_get d ''value'' (JStr ''0x0'')) = Inr (Some v) \<and>
                      bal' = dict_add bal to_addr v)"
proof -
  have e: "lower_of (dict_get d ''from'' (JStr [])) = Inr []"
    using assms(1) by (auto simp: dict_get_def lower_of_def py_lower_def)
  show ?thesis using assms(2)
    by (auto simp: process_transfer_def e Let_def split: sum.splits option.splits if_splits)
qed

lemma process_transfer_to_absent_effect:
  assumes "map_of d ''to'' = None \<or> map_of d ''to'' = Some (JStr [])"
    and "process_transfer bal (JObj d) = Inr bal'"
  shows "bal' = bal \<or>
         (\<exists>from_addr v. lower_of (dict_get d ''from'' (JStr [])) = Inr from_addr \<and>
                      convert_value (dict_get d ''value'' (JStr ''0x0'')) = Inr (Some v) \<and>
                      bal' = dict_add bal from_addr (- v))"
proof -
  have e: "lower_of (dict_get d ''to'' (JStr [])) = Inr []"
    using assms(1) by (auto simp: dict_get_def lower_of_def py_lower_def)
  show ?thesis using assms(2)
    by (auto simp: process_transfer_def e Let_def split: sum.splits option.splits if_splits)
qed

text \<open>
  Claim C10. A transfer whose \<^verbatim>\<open>from\<close> (or \<^verbatim>\<open>to\<close>) field is missing or the empty
  string is processed as if that field held the zero address: nothing is subtracted (or
  added) on that side, and the empty string is never a key of the returned mapping.
\<close>

theorem absent_address_like_sentinel:
  "(\<forall>m. calculate_token_balances transfers = Inr m \<longrightarrow> [] \<notin> fst ` set m) \<and>
   (map_of d ''from'' = None \<or> map_of d ''from'' = Some (JStr []) \<longrightarrow>
      process_transfer bal (JObj d) =
        process_transfer bal (JObj ((''from'', JStr zero_address) # d)) \<and>
      (\<forall>bal'. process_transfer bal (JObj d) = Inr bal' \<longrightarrow>
         bal' = bal \<or>
         (\<exists>to_addr v. lower_of (dict_get d ''to'' (JStr [])) = Inr to_addr \<and>
                      convert_value (dict_get d ''value'' (JStr ''0x0'')) = Inr (Some v) \<and>
                      bal' = dict_add bal to_addr v))) \<and>
   (map_of d ''to'' = None \<or> map_of d ''to'' = Some (JStr []) \<longrightarrow>
      process_transfer bal (JObj d) =
        process_transfer bal (JObj ((''to'', JStr zero_address) # d)) \<and>
      (\<forall>bal'. process_transfer bal (JObj d) = Inr bal' \<longrightarrow>
         bal' = bal \<or>
         (\<exists>from_addr v. lower_of (dict_get d ''from'' (JStr [])) = Inr from_addr \<and>
                      convert_value (dict_get d ''value'' (JStr ''0x0'')) = Inr (Some v) \<and>
                      bal' = dict_add bal from_addr (- v))))"
proof (intro conjI allI impI)
  fix m assume "calculate_token_balances transfers = Inr m"
  then show "[] \<notin> fst ` set m" using calculate_keys by blast
next
  assume "map_of d ''from'' = None \<or> map_of d ''from'' = Some (JStr [])"
  then show "process_transfer bal (JObj d) =
        process_transfer bal (JObj ((''from'', JStr zero_address) # d))"
    by (rule process_transfer_from_absent)
next
  fix bal'
  assume "map_of d ''from'' = None \<or> map_of d ''from'' = Some (JStr [])"
    and "process_transfer bal (JObj d) = Inr bal'"
  then show "bal' = bal \<or>
         (\<exists>to_addr v. lower_of (dict_get d ''to'' (JStr [])) = Inr to_addr \<and>
                      convert_value (dict_get d ''value'' (JStr ''0x0'')) = Inr (Some v) \<and>
                      bal' = dict_add bal to_addr v)"
    by (rule process_transfer_from_absent_effect)
next
  assume "map_of d ''to'' = None \<or> map_of d ''to'' = Some (JStr [])"
  then show "process_transfer bal (JObj d) =
        process_transfer bal (JObj ((''to'', JStr zero_address) # d))"
    by (rule process_transfer_to_absent)
next
  fix bal'
  assume "map_of d ''to'' = None \<or> map_of d ''to'' = Some (JStr [])"
    and "process_transfer bal (JObj d) = Inr bal'"
  then show "bal' = bal \<or>
         (\<exists>from_addr v. lower_of (dict_get d ''from'' (JStr [])) = Inr from_addr \<and>
                      convert_value (dict_get d ''value'' (JStr ''0x0'')) = Inr (Some v) \<and>
                      bal' = dict_add bal from_addr (- v))"
    by (rule process_transfer_to_absent_effect)
qed

lemma gift_balances:
  "calculate_token_balances [JObj gift_to_a] = Inr [(holder_a, 7)]"
  by code_simp

lemma gift_from_absent: "map_of gift_to_a ''from'' = None"
  by (simp add: gift_to_a_def)

theorem absent_address_like_sentinel_witness:
  "map_of gift_to_a ''from'' = None \<and>
   calculate_token_balances [JObj gift_to_a] = Inr [(holder_a, 7)] \<and>
   [] \<notin> fst ` set [(holder_a, 7 :: int)] \<and>
   process_transfer [] (JObj gift_to_a) =
     process_transfer [] (JObj ((''from'', JStr zero_address) # gift_to_a))"
proof -
  note t = absent_address_like_sentinel [of "[JObj gift_to_a]" gift_to_a "[]"]
  from t gift_balances have 1: "[] \<notin> fst ` set [(holder_a, 7 :: int)]"
    by blast
  from t gift_from_absent have 2: "process_transfer [] (JObj gift_to_a) =
     process_transfer [] (JObj ((''from'', JStr zero_address) # gift_to_a))"
    by blast
  show ?thesis by (intro conjI gift_from_absent gift_balances 1 2)
qed

section \<open>Properties of the value conversion\<close>

lemma space_not_digit: "py_isspace c \<Longrightarrow> \<not> is_digit 16 c"
  by (auto simp: py_isspace_def is_digit_def digit_value_def Let_def)

lemma digit_10_16: "is_digit 10 c \<Longrightarrow> is_digit 16 c"
  by (simp add: is_digit_def)

lemma underscore_not_digit: "\<not> is_digit 16 underscore"
  by (simp add: is_digit_def digit_value_def underscore_def)

lemma sign_not_digit: "\<not> is_digit 16 CHR ''+''" "\<not> is_digit 16 CHR ''-''"
  by (simp_all add: is_digit_def digit_value_def)

lemma x_not_digit: "\<not> is_digit 16 CHR ''x''" "\<not> is_digit 16 CHR ''X''"
  by (simp_all add: is_digit_def digit_value_def)

lemma no_adjacent_underscores:
  "underscore \<notin> set s \<Longrightarrow> \<not> adjacent_underscores s"
  by (induction s rule: adjacent_underscores.induct) auto

lemma strip_sign_digits:
  assumes "s \<noteq> []" and "is_digit 16 (hd s)"
  shows "strip_sign (dropWhile py_isspace s) = (False, s)"
proof -
  from assms obtain c r where s: "s = c # r" and c: "is_digit 16 c"
    by (cases s) auto
  from c have "\<not> py_isspace c" "c \<noteq> CHR ''+''" "c \<noteq> CHR ''-''"
    using space_not_digit sign_not_digit by auto
  then show ?thesis by (simp add: s strip_sign_def)
qed

lemma py_int_token:
  assumes "ds \<noteq> []" and "\<forall>c \<in> set ds. is_digit b c" and "\<forall>c \<in> set ds. is_digit 16 c"
    and "strip_sign (dropWhile py_isspace s) = (False, s2)" and "strip_prefix b s2 = ds"
    and "b = 10 \<longrightarrow> length ds \<le> int_max_str_digits"
  shows "py_int s b = Some (int (digits_value b ds))"
proof -
  let ?P = "\<lambda>c. is_digit b c \<or> c = underscore"
  from assms(3) have nu: "underscore \<notin> set ds"
    using underscore_not_digit by blast
  have tok: "takeWhile ?P ds = ds" using assms(2) by (simp add: takeWhile_eq_all_conv)
  have rest: "dropWhile ?P ds = []" using assms(2) by simp
  have flt: "filter (\<lambda>c. c \<noteq> underscore) ds = ds" using nu by (auto simp: filter_id_conv)
  have hd: "hd ds \<noteq> underscore" using nu assms(1) by (metis hd_in_set)
  have lst: "last ds \<noteq> underscore" using nu assms(1) by (metis last_in_set)
  have adj: "\<not> adjacent_underscores ds" using nu by (rule no_adjacent_underscores)
  show ?thesis
    using assms(1) assms(6) hd lst adj
    by (auto simp: py_int_def assms(4) assms(5) tok rest flt)
qed

lemma py_int_hex_digits:
  assumes "h \<noteq> []" and "list_all (is_digit 16) h"
  shows "py_int h 16 = Some (int (digits_value 16 h))"
proof -
  from assms have d: "\<forall>c \<in> set h. is_digit 16 c" by (simp add: list_all_iff)
  with assms(1) have "is_digit 16 (hd h)" by simp
  with assms(1) have s: "strip_sign (dropWhile py_isspace h) = (False, h)"
    by (rule strip_sign_digits)
  have p: "strip_prefix 16 h = h"
    using d x_not_digit by (auto simp: strip_prefix_def split: list.splits)
  show ?thesis using assms(1) d d s p by (rule py_int_token) simp
qed

lemma py_int_0x_hex_digits:
  assumes "h \<noteq> []" and "list_all (is_digit 16) h"
  shows "py_int (''0x'' @ h) 16 = Some (int (digits_value 16 h))"
proof -
  from assms have d: "\<forall>c \<in> set h. is_digit 16 c" by (simp add: list_all_iff)
  have s: "strip_sign (dropWhile py_isspace (''0x'' @ h)) = (False, ''0x'' @ h)"
    by (simp add: strip_sign_def py_isspace_def)
  from assms(1) d have "hd h \<noteq> underscore" using underscore_not_digit by (metis hd_in_set)
  with assms(1) have p: "strip_prefix 16 (''0x'' @ h) = h"
    by (cases h) (simp_all add: strip_prefix_def)
  show ?thesis using assms(1) d d s p by (rule py_int_token) simp
qed

lemma py_int_decimal_digits:
  assumes "ds \<noteq> []" and "list_all (is_digit 10) ds" and "length ds \<le> int_max_str_digits"
  shows "py_int ds 10 = Some (int (digits_value 10 ds))"
proof -
  from assms have d: "\<forall>c \<in> set ds. is_digit 10 c" by (simp add: list_all_iff)
  then have d16: "\<forall>c \<in> set ds. is_digit 16 c" using digit_10_16 by blast
  with assms(1) have "is_digit 16 (hd ds)" by simp
  with assms(1) have s: "strip_sign (dropWhile py_isspace ds) = (False, ds)"
    by (rule strip_sign_digits)
  have p: "strip_prefix 10 ds = ds"
    by (auto simp: strip_prefix_def split: list.splits)
  show ?thesis using assms(1) d d16 s p by (rule py_int_token) (simp add: assms(3))
qed

lemma startswith_0x_append: "startswith (''0x'' @ h) ''0x''"
  by (simp add: startswith_def)

lemma digits_not_startswith_0x:
  assumes "list_all (is_digit 16) ds"
  shows "\<not> startswith ds ''0x''"
proof
  assume "startswith ds ''0x''"
  then have "take 2 ds = ''0x''" by (simp add: startswith_def numeral_2_eq_2)
  then have "CHR ''x'' \<in> set (take 2 ds)" by simp
  then have "CHR ''x'' \<in> set ds" by (rule in_set_takeD)
  with assms show False using x_not_digit by (auto simp: list_all_iff)
qed

lemma accumulate_append:
  "accumulate bal (xs @ ys) =
     (case accumulate bal xs of Inl e \<Rightarrow> Inl e | Inr b \<Rightarrow> accumulate b ys)"
  by (induction xs arbitrary: bal) (auto split: sum.splits)

lemma process_transfer_skip:
  assumes "\<exists>f. dict_get d ''from'' (JStr []) = JStr f"
    and "\<exists>t. dict_get d ''to'' (JStr []) = JStr t"
    and "convert_value (dict_get d ''value'' (JStr ''0x0'')) = Inr None"
  shows "process_transfer bal (JObj d) = Inr bal"
  using assms by (auto simp: process_transfer_def lower_of_def)

lemma calculate_skip:
  assumes "\<And>bal. process_transfer bal t = Inr bal"
  shows "calculate_token_balances (ts1 @ t # ts2) = calculate_token_balances (ts1 @ ts2)"
  by (simp add: calculate_token_balances_def accumulate_append assms split: sum.splits)

lemma convert_value_examples:
  "convert_value (JStr ''0x1a'') = Inr (Some 26)"
  "convert_value (JStr ''26'') = Inr (Some 26)"
  by code_simp+

text \<open>
  What holds of the value conversion. A value string with the prefix \<^verbatim>\<open>0x\<close> is read
  in base 16 (\<^verbatim>\<open>0x1a\<close> is 26), any other string in base 10 (\<^verbatim>\<open>26\<close> is 26). A transfer
  whose conversion ends in \<^verbatim>\<open>continue\<close> leaves the balances as they are, and the result
  of the whole call is that of the list without the transfer, provided its \<^verbatim>\<open>from\<close> and
  \<^verbatim>\<open>to\<close> fields are strings or absent.
\<close>

lemma value_parsing:
  "convert_value (JStr ''0x1a'') = Inr (Some 26) \<and>
   convert_value (JStr ''26'') = Inr (Some 26) \<and>
   convert_value (JStr s) = Inr (if startswith s ''0x'' then py_int s 16 else py_int s 10) \<and>
   (h \<noteq> [] \<and> list_all (is_digit 16) h \<longrightarrow>
      convert_value (JStr (''0x'' @ h)) = Inr (Some (int (digits_value 16 h)))) \<and>
   (ds \<noteq> [] \<and> list_all (is_digit 10) ds \<and> length ds \<le> int_max_str_digits \<longrightarrow>
      convert_value (JStr ds) = Inr (Some (int (digits_value 10 ds)))) \<and>
   ((\<exists>f. dict_get d ''from'' (JStr []) = JStr f) \<and>
    (\<exists>t. dict_get d ''to'' (JStr []) = JStr t) \<and>
    convert_value (dict_get d ''value'' (JStr ''0x0'')) = Inr None \<longrightarrow>
      process_transfer bal (JObj d) = Inr bal \<and>
      calculate_token_balances (ts1 @ JObj d # ts2) = calculate_token_balances (ts1 @ ts2))"
proof (intro conjI impI)
  show "convert_value (JStr ''0x1a'') = Inr (Some 26)"
    and "convert_value (JStr ''26'') = Inr (Some 26)"
    by (rule convert_value_examples)+
  show "convert_value (JStr s) = Inr (if startswith s ''0x'' then py_int s 16 else py_int s 10)"
    by (simp add: convert_value_def)
next
  assume "h \<noteq> [] \<and> list_all (is_digit 16) h"
  then show "convert_value (JStr (''0x'' @ h)) = Inr (Some (int (digits_value 16 h)))"
    using py_int_0x_hex_digits [of h] startswith_0x_append [of h]
    by (simp add: convert_value_def)
next
  assume a: "ds \<noteq> [] \<and> list_all (is_digit 10) ds \<and> length ds \<le> int_max_str_digits"
  then have "list_all (is_digit 16) ds"
    using digit_10_16 by (auto simp: list_all_iff)
  then have "\<not> startswith ds ''0x''" by (rule digits_not_startswith_0x)
  with a show "convert_value (JStr ds) = Inr (Some (int (digits_value 10 ds)))"
    using py_int_decimal_digits [of ds] by (simp add: convert_value_def)
next
  assume a: "(\<exists>f. dict_get d ''from'' (JStr []) = JStr f) \<and>
    (\<exists>t. dict_get d ''to'' (JStr []) = JStr t) \<and>
    convert_value (dict_get d ''value'' (JStr ''0x0'')) = Inr None"
  then have skip: "\<And>b. process_transfer b (JObj d) = Inr b"
    by (intro process_transfer_skip) simp_all
  show "process_transfer bal (JObj d) = Inr bal" by (rule skip)
  show "calculate_token_balances (ts1 @ JObj d # ts2) = calculate_token_balances (ts1 @ ts2)"
    using skip by (rule calculate_skip)
qed

lemma junk_value_fields:
  "dict_get junk_value ''from'' (JStr []) = JStr holder_a"
  "dict_get junk_value ''to'' (JStr []) = JStr holder_b"
  "convert_value (dict_get junk_value ''value'' (JStr ''0x0'')) = Inr None"
  by code_simp+

lemma hex_1a: "''1a'' \<noteq> [] \<and> list_all (is_digit 16) ''1a''"
  by code_simp

lemma dec_26: "''26'' \<noteq> [] \<and> list_all (is_digit 10) ''26'' \<and> length ''26'' \<le> int_max_str_digits"
  by code_simp

lemma digits_value_examples: "digits_value 16 ''1a'' = 26" "digits_value 10 ''26'' = 26"
  by code_simp+

lemma value_parsing_witness:
  "convert_value (JStr (''0x'' @ ''1a'')) = Inr (Some 26) \<and>
   convert_value (JStr ''26'') = Inr (Some (int (digits_value 10 ''26''))) \<and>
   convert_value (dict_get junk_value ''value'' (JStr ''0x0'')) = Inr None \<and>
   process_transfer [] (JObj junk_value) = Inr [] \<and>
   calculate_token_balances ([mint_to_a] @ JObj junk_value # [a_pays_b]) =
     Inr [(holder_a, 50), (holder_b, 50)]"
proof -
  note t = value_parsing [of "''1a''" "''1a''" "''26''" junk_value "[]" "[mint_to_a]" "[a_pays_b]"]
  from t hex_1a have "convert_value (JStr (''0x'' @ ''1a'')) = Inr (Some (int (digits_value 16 ''1a'')))"
    by blast
  then have 1: "convert_value (JStr (''0x'' @ ''1a'')) = Inr (Some 26)"
    unfolding digits_value_examples by simp
  from t dec_26 have 2: "convert_value (JStr ''26'') = Inr (Some (int (digits_value 10 ''26'')))"
    by blast
  from t junk_value_fields have 3: "process_transfer [] (JObj junk_value) = Inr [] \<and>
      calculate_token_balances ([mint_to_a] @ JObj junk_value # [a_pays_b]) =
      calculate_token_balances ([mint_to_a] @ [a_pays_b])"
    by blast
  have 4: "calculate_token_balances ([mint_to_a] @ [a_pays_b]) = Inr [(holder_a, 50), (holder_b, 50)]"
    using scenario_balances by simp
  from 1 2 3 4 junk_value_fields(3) show ?thesis by (simp only: simp_thms)
qed

text \<open>
  The sibling case: \<^verbatim>\<open>int\<close> of a NaN raises \<^verbatim>\<open>ValueError\<close>, which is caught, and the
  transfer is skipped.
\<close>

lemma nan_value_skipped:
  "convert_value (JFloat NaN) = Inr None \<and>
   calculate_token_balances [mint_to_a, JObj nan_value, a_pays_b] =
     Inr [(holder_a, 50), (holder_b, 50)]"
  by code_simp

text \<open>
  Claim C4, at a transfer whose value is the float infinity (the JSON number
  \<^verbatim>\<open>1e999\<close>): the value cannot be converted, yet the transfer is not skipped. \<^verbatim>\<open>int\<close>
  raises \<^verbatim>\<open>OverflowError\<close>, the clause \<^verbatim>\<open>except (ValueError, TypeError)\<close> lets it
  pass, and the whole call fails, where the same list without that transfer gives the
  balances of \<open>A\<close> and \<open>B\<close>.
\<close>

theorem infinite_value_not_skipped:
  "dict_get infinite_value ''value'' (JStr ''0x0'') = JFloat PosInf \<and>
   convert_value (JFloat PosInf) = Inl OverflowError \<and>
   process_transfer [] (JObj infinite_value) = Inl OverflowError \<and>
   calculate_token_balances [mint_to_a, JObj infinite_value, a_pays_b] = Inl OverflowError \<and>
   calculate_token_balances [mint_to_a, a_pays_b] = Inr [(holder_a, 50), (holder_b, 50)]"
  by code_simp

section \<open>Properties of the address validation\<close>

lemma is_valid_address_hex:
  assumes "length h = 40" and "list_all (is_digit 16) h"
  shows "is_valid_address (JStr h)" and "is_valid_address (JStr (''0x'' @ h))"
proof -
  from assms(1) have ne: "h \<noteq> []" by auto
  have n: "\<not> startswith h ''0x''" using assms(2) by (rule digits_not_startswith_0x)
  have p: "py_int h 16 = Some (int (digits_value 16 h))"
    using ne assms(2) by (rule py_int_hex_digits)
  show "is_valid_address (JStr h)"
    using ne n p assms(1) by (simp add: is_valid_address_def)
  show "is_valid_address (JStr (''0x'' @ h))"
    using p assms(1) startswith_0x_append [of h] by (simp add: is_valid_address_def)
qed

lemma strip_prefix_no_zero: "s \<noteq> [] \<Longrightarrow> hd s \<noteq> CHR ''0'' \<Longrightarrow> strip_prefix b s = s"
  by (auto simp: strip_prefix_def split: list.splits)

lemma py_int_signed_forty:
  "py_int signed_forty 16 = Some (int (digits_value 16 (replicate 39 (CHR ''a''))))"
proof (rule py_int_token)
  show "replicate 39 (CHR ''a'') \<noteq> []" by simp
  show "\<forall>c \<in> set (replicate 39 (CHR ''a'')). is_digit 16 c"
    by (simp add: is_digit_def digit_value_def)
  then show "\<forall>c \<in> set (replicate 39 (CHR ''a'')). is_digit 16 c" .
  show "strip_sign (dropWhile py_isspace signed_forty) = (False, replicate 39 (CHR ''a''))"
    by (simp add: signed_forty_def strip_sign_def py_isspace_def)
  show "strip_prefix 16 (replicate 39 (CHR ''a'')) = replicate 39 (CHR ''a'')"
    by (rule strip_prefix_no_zero) simp_all
  show "(16::nat) = 10 \<longrightarrow> length (replicate 39 (CHR ''a'')) \<le> int_max_str_digits" by simp
qed

text \<open>
  Claim C8, at the input \<^verbatim>\<open>+aaa...a\<close> (a sign and 39 hexadecimal digits):
  \<open>is_valid_address\<close> accepts a string of length 40 whose first character is no
  hexadecimal digit, because \<^verbatim>\<open>int(address, 16)\<close> accepts a sign.
\<close>

theorem is_valid_address_accepts_non_hex:
  "is_valid_address (JStr signed_forty) \<and> length signed_forty = 40 \<and>
   \<not> is_digit 16 (hd signed_forty)"
proof -
  have l: "length signed_forty = 40" by (simp add: signed_forty_def)
  have n: "\<not> startswith signed_forty ''0x''" by (simp add: signed_forty_def startswith_def)
  have e: "signed_forty \<noteq> []" by (simp add: signed_forty_def)
  have h: "\<not> is_digit 16 (hd signed_forty)"
    by (simp add: signed_forty_def is_digit_def digit_value_def)
  have v: "is_valid_address (JStr signed_forty)"
    using l n e by (simp add: is_valid_address_def py_int_signed_forty)
  from v l h show ?thesis by (intro conjI)
qed

lemma is_valid_address_rejects:
  "\<not> is_valid_address (JStr ''1234'')" "\<not> is_valid_address JNull" "\<not> is_valid_address (JInt 5)"
  by code_simp+

section \<open>Properties of the transfer fetch\<close>

lemma fetch_loop_fetched:
  "fetched srv st0 pages st page_key \<Longrightarrow>
   fetch_loop srv st0 JNull [] = fetch_loop srv st page_key (concat pages)"
proof (induction rule: fetched.induct)
  case fetched_none
  show ?case by simp
next
  case (fetched_page pages st page_key items page_key' st')
  have "fetch_loop srv st page_key (concat pages) =
        fetch_loop srv st' page_key' (concat pages @ items)"
    by (subst fetch_loop.simps) (simp add: fetched_page.hyps(2))
  with fetched_page.IH show ?case by simp
qed

lemma fetch_page_NextPage_nonempty:
  "fetch_page srv st page_key = NextPage items page_key' st' \<Longrightarrow> items \<noteq> []"
  by (auto simp: fetch_page_def iterate_def truthy_def Let_def
      split: prod.splits sum.splits json.splits if_splits)

lemma fetched_nonempty:
  "fetched srv st0 pages st page_key \<Longrightarrow> pages \<noteq> [] \<Longrightarrow> concat pages \<noteq> []"
  by (induction rule: fetched.induct) (auto dest: fetch_page_NextPage_nonempty)

text \<open>
  Claim C5. When at least one page has been fetched and appended and the next iteration
  fails, \<open>get_asset_transfers\<close> returns the transfers of the earlier pages, in order.
\<close>

theorem partial_result_on_failure:
  assumes "fetched srv st0 pages st page_key" and "pages \<noteq> []"
    and "fetch_page srv st page_key = PageError"
  shows "get_asset_transfers srv st0 = Some (concat pages) \<and> concat pages \<noteq> []"
proof -
  have "fetch_loop srv st page_key (concat pages) = Some (concat pages)"
    by (subst fetch_loop.simps) (simp add: assms(3))
  with fetch_loop_fetched [OF assms(1)]
  have "get_asset_transfers srv st0 = Some (concat pages)"
    by (simp add: get_asset_transfers_def)
  with fetched_nonempty [OF assms(1) assms(2)] show ?thesis by simp
qed

lemma one_page_then_down_first:
  "fetch_page one_page_then_down 0 JNull = NextPage [mint_to_a, a_pays_b] (JStr ''k1'') (Suc 0)"
  by (simp add: fetch_page_def one_page_then_down_def first_page_def make_request_def
      dict_get_def iterate_def truthy_def)

lemma one_page_then_down_second:
  "fetch_page one_page_then_down (Suc 0) (JStr ''k1'') = PageError"
  by (simp add: fetch_page_def one_page_then_down_def make_request_def)

theorem partial_result_on_failure_witness:
  "get_asset_transfers one_page_then_down 0 = Some [mint_to_a, a_pays_b]"
proof -
  have "fetched one_page_then_down 0 ([] @ [[mint_to_a, a_pays_b]]) (Suc 0) (JStr ''k1'')"
    using fetched_none one_page_then_down_first by (rule fetched_page)
  then have f: "fetched one_page_then_down 0 [[mint_to_a, a_pays_b]] (Suc 0) (JStr ''k1'')"
    by simp
  have n: "[[mint_to_a, a_pays_b]] \<noteq> []" by simp
  from partial_result_on_failure [OF f n one_page_then_down_second]
  show ?thesis by simp
qed

lemma make_request_always_down:
  "make_request (fst (always_down 0 None)) = Inl Exception"
  by (simp add: always_down_def make_request_def)

lemma fetch_page_failed_request:
  "make_request (fst (srv st None)) = Inl e \<Longrightarrow> fetch_page srv st JNull = PageError"
  by (cases "srv st None") (simp add: fetch_page_def truthy_def)

lemma always_down_transfers: "get_asset_transfers always_down 0 = Some []"
proof -
  have p: "fetch_page always_down 0 JNull = PageError"
    by (simp add: fetch_page_def always_down_def make_request_def truthy_def)
  show ?thesis
    unfolding get_asset_transfers_def by (subst fetch_loop.simps) (simp add: p)
qed

text \<open>
  Claim C6 as stated fails: with a server whose every request fails, the first page
  request raises, and \<open>get_top_holders\<close> returns the empty list instead of raising.
\<close>

theorem first_page_failure_not_surfaced:
  "make_request (fst (always_down 0 None)) = Inl Exception \<and>
   get_asset_transfers always_down 0 = Some [] \<and>
   get_top_holders always_down 0 20 = Some (Inr [])"
proof -
  have "get_top_holders always_down 0 20 = Some (Inr [])"
    by (simp add: get_top_holders_def holders_of_def always_down_transfers)
  with always_down_transfers make_request_always_down show ?thesis by (intro conjI)
qed

text \<open>
  Claim C6, as the code has it. When the first page request fails,
  \<open>get_asset_transfers\<close> returns the empty list and \<open>get_top_holders\<close> returns an empty
  result; no error reaches the caller.
\<close>

theorem first_page_failure_gives_empty:
  assumes "make_request (fst (srv st None)) = Inl e"
  shows "get_asset_transfers srv st = Some [] \<and> get_top_holders srv st top_n = Some (Inr [])"
proof -
  from assms have p: "fetch_page srv st JNull = PageError" by (rule fetch_page_failed_request)
  have g: "get_asset_transfers srv st = Some []"
    unfolding get_asset_transfers_def by (subst fetch_loop.simps) (simp add: p)
  then show ?thesis by (simp add: get_top_holders_def holders_of_def)
qed

theorem first_page_failure_gives_empty_witness:
  "get_asset_transfers always_down 0 = Some [] \<and> get_top_holders always_down 0 5 = Some (Inr [])"
  using first_page_failure_gives_empty [of always_down 0 Exception 5] make_request_always_down
  by blast

section \<open>Properties of the ranking\<close>

lemma sorted_holders_sorted: "sorted_wrt (\<lambda>x y. snd y \<le> snd x) (sorted_holders balances)"
proof -
  have "sorted (map (\<lambda>x. - snd x) (sorted_holders balances))"
    by (simp add: sorted_holders_def)
  then show ?thesis by (simp add: sorted_map)
qed

lemma slice_to_sorted: "sorted_wrt P xs \<Longrightarrow> sorted_wrt P (slice_to xs n)"
  by (simp add: slice_to_def sorted_wrt_take)

lemma slice_to_length: "0 \<le> n \<Longrightarrow> length (slice_to xs n) \<le> nat n"
  by (simp add: slice_to_def)

lemma slice_to_subset: "set (slice_to xs n) \<subseteq> set xs"
  by (auto simp: slice_to_def dest: in_set_takeD)

lemma rank_holders_sorted: "sorted_wrt (\<lambda>x y. snd y \<le> snd x) (rank_holders balances top_n)"
  by (simp add: rank_holders_def slice_to_sorted sorted_holders_sorted)

lemma rank_holders_length: "0 \<le> top_n \<Longrightarrow> length (rank_holders balances top_n) \<le> nat top_n"
  by (simp add: rank_holders_def slice_to_length)

lemma rank_holders_subset: "set (rank_holders balances top_n) \<subseteq> set balances"
proof -
  have "set (sorted_holders balances) = set balances" by (simp add: sorted_holders_def)
  then show ?thesis using slice_to_subset [of "sorted_holders balances" top_n]
    by (auto simp: rank_holders_def)
qed

lemma sorted_first_largest:
  assumes "sorted_wrt (\<lambda>x y. snd y \<le> snd x) (r :: balances)" and "k < length r"
  shows "snd (r ! k) \<le> snd (r ! 0)"
proof (cases k)
  case 0
  then show ?thesis by simp
next
  case (Suc j)
  then have "0 < k" by simp
  from sorted_wrt_nth_less [OF assms(1) this assms(2)] show ?thesis .
qed

lemma holders_of_ranked:
  "holders_of transfers top_n = Inr r \<Longrightarrow> \<exists>balances. r = rank_holders balances top_n"
  by (auto simp: holders_of_def rank_holders_def split: if_splits sum.splits)

text \<open>
  Claim C7. The ranked list is sorted by descending balance, so its first entry is at least
  every later one; for a count \<open>N \<ge> 0\<close> it has at most \<open>N\<close> entries; it is drawn from
  the mapping; an empty mapping and an empty transfer list give the empty list.
\<close>

theorem ranking:
  "rank_holders [] top_n = [] \<and>
   holders_of [] top_n = Inr [] \<and>
   (get_asset_transfers srv st = Some [] \<longrightarrow> get_top_holders srv st top_n = Some (Inr [])) \<and>
   sorted_wrt (\<lambda>x y. snd y \<le> snd x) (rank_holders balances top_n) \<and>
   set (rank_holders balances top_n) \<subseteq> set balances \<and>
   (0 \<le> top_n \<longrightarrow> length (rank_holders balances top_n) \<le> nat top_n) \<and>
   (\<forall>k < length (rank_holders balances top_n).
      snd (rank_holders balances top_n ! k) \<le> snd (rank_holders balances top_n ! 0)) \<and>
   (get_top_holders srv st top_n = Some (Inr r) \<longrightarrow>
      sorted_wrt (\<lambda>x y. snd y \<le> snd x) r \<and>
      (0 \<le> top_n \<longrightarrow> length r \<le> nat top_n) \<and>
      (\<forall>k < length r. snd (r ! k) \<le> snd (r ! 0)))"
proof (intro conjI impI allI)
  show "rank_holders [] top_n = []" by (simp add: rank_holders_def)
  show "holders_of [] top_n = Inr []" by (simp add: holders_of_def)
  show "sorted_wrt (\<lambda>x y. snd y \<le> snd x) (rank_holders balances top_n)"
    by (rule rank_holders_sorted)
  show "set (rank_holders balances top_n) \<subseteq> set balances" by (rule rank_holders_subset)
next
  assume "get_asset_transfers srv st = Some []"
  then show "get_top_holders srv st top_n = Some (Inr [])"
    by (simp add: get_top_holders_def holders_of_def)
next
  assume "0 \<le> top_n"
  then show "length (rank_holders balances top_n) \<le> nat top_n" by (rule rank_holders_length)
next
  fix k assume "k < length (rank_holders balances top_n)"
  with rank_holders_sorted
  show "snd (rank_holders balances top_n ! k) \<le> snd (rank_holders balances top_n ! 0)"
    by (rule sorted_first_largest)
next
  assume "get_top_holders srv st top_n = Some (Inr r)"
  then obtain b where r: "r = rank_holders b top_n"
    by (auto simp: get_top_holders_def split: option.splits dest: holders_of_ranked)
  show "sorted_wrt (\<lambda>x y. snd y \<le> snd x) r" unfolding r by (rule rank_holders_sorted)
  { assume "0 \<le> top_n"
    then show "length r \<le> nat top_n" unfolding r by (rule rank_holders_length) }
  { fix k assume "k < length r"
    with rank_holders_sorted [of b top_n]
    show "snd (r ! k) \<le> snd (r ! 0)" unfolding r by (rule sorted_first_largest) }
qed

lemma rank_example:
  "rank_holders [(holder_a, 50), (holder_b, 70)] 1 = [(holder_b, 70)]"
  by (simp add: rank_holders_def sorted_holders_def slice_to_def)

theorem ranking_witness:
  "(0::int) \<le> 1 \<and>
   rank_holders [(holder_a, 50), (holder_b, 70)] 1 = [(holder_b, 70)] \<and>
   length (rank_holders [(holder_a, 50), (holder_b, 70)] 1) \<le> nat 1 \<and>
   get_asset_transfers always_down 0 = Some [] \<and>
   get_top_holders always_down 0 1 = Some (Inr [])"
proof -
  note t = ranking [where top_n = 1 and srv = always_down and st = "0::nat"
      and balances = "[(holder_a, 50), (holder_b, 70)]" and r = "[]"]
  from t have "(0::int) \<le> 1 \<longrightarrow>
      length (rank_holders [(holder_a, 50), (holder_b, 70)] 1) \<le> nat 1"
    by blast
  then have l: "length (rank_holders [(holder_a, 50), (holder_b, 70)] 1) \<le> nat 1"
    by simp
  from t always_down_transfers have g: "get_top_holders always_down 0 1 = Some (Inr [])"
    by blast
  have z: "(0::int) \<le> 1" by simp
  show ?thesis by (intro conjI z rank_example l always_down_transfers g)
qed

section \<open>Properties of the balance formatting\<close>

lemma show_digits_chars:
  "0 \<le> n \<Longrightarrow> c \<in> set (show_digits n) \<Longrightarrow> (48::int) \<le> of_char c \<and> of_char c \<le> (57::int)"
proof (induction n arbitrary: c rule: show_digits.induct)
  case (1 n)
  show ?case
  proof (cases "n < 10")
    case True
    with "1.prems" have "c = char_of (48 + n)"
      by (subst (asm) show_digits.simps) simp
    with True "1.prems"(1) show ?thesis by simp
  next
    case False
    with "1.prems" have "c \<in> set (show_digits (n div 10)) \<or> c = char_of (48 + n mod 10)"
      by (subst (asm) show_digits.simps) auto
    then show ?thesis
    proof
      assume "c \<in> set (show_digits (n div 10))"
      moreover from "1.prems"(1) have "0 \<le> n div 10" by simp
      ultimately show ?thesis using "1.IH" False by blast
    next
      assume c: "c = char_of (48 + n mod 10)"
      have "0 \<le> n mod 10" "n mod 10 < 10" by simp_all
      then show ?thesis unfolding c by simp
    qed
  qed
qed

lemma round_half_even_nonneg: "0 \<le> x \<Longrightarrow> 0 \<le> round_half_even x"
  by (auto simp: round_half_even_def Let_def)

lemma format_fixed_chars:
  assumes "c \<in> set (format_fixed k x)"
  shows "c \<noteq> CHR ''M'' \<and> c \<noteq> CHR ''K''"
proof -
  let ?r = "round_half_even (\<bar>x\<bar> * 10 ^ k)"
  have r: "0 \<le> ?r" by (rule round_half_even_nonneg) simp
  then have a: "0 \<le> ?r mod 10 ^ k" and b: "0 \<le> ?r div 10 ^ k"
    by (simp_all add: pos_imp_zdiv_nonneg_iff)
  from assms have "c \<in> set (show_digits (?r mod 10 ^ k)) \<or> c \<in> set (show_digits (?r div 10 ^ k))
      \<or> c = CHR ''-'' \<or> c = CHR ''.'' \<or> c = CHR ''0''"
    by (auto simp: format_fixed_def Let_def split: if_splits)
  then show ?thesis
    using show_digits_chars [OF a, of c] show_digits_chars [OF b, of c] by auto
qed

lemma rstrip_subset: "set (rstrip c s) \<subseteq> set s"
  by (auto simp: rstrip_def dest: set_dropWhileD)

lemma plain_no_suffix:
  "rstrip (CHR ''.'') (rstrip (CHR ''0'') (format_fixed 4 q)) \<noteq> body @ [c]"
  if "c = CHR ''M'' \<or> c = CHR ''K''"
proof
  assume "rstrip (CHR ''.'') (rstrip (CHR ''0'') (format_fixed 4 q)) = body @ [c]"
  then have "c \<in> set (rstrip (CHR ''.'') (rstrip (CHR ''0'') (format_fixed 4 q)))" by simp
  then have "c \<in> set (format_fixed 4 q)" using rstrip_subset by blast
  with that show False using format_fixed_chars by blast
qed

text \<open>
  Claim C9. A balance below \<open>10^12\<close> is rendered as it is, a balance from \<open>10^12\<close> on is
  divided by \<open>10^decimals\<close>; the result ends in \<^verbatim>\<open>M\<close> exactly when the readable value is
  at least 1,000,000, and in \<^verbatim>\<open>K\<close> exactly when it is at least 1,000 and below 1,000,000.
\<close>

theorem format_balance_scaling:
  "(balance < 10 ^ 12 \<longrightarrow> readable_balance balance decimals = Inr (PyInt balance)) \<and>
   (10 ^ 12 \<le> balance \<longrightarrow>
      readable_balance balance decimals =
        (case to_float (of_int balance / of_int (10 ^ decimals)) of
           Inl e \<Rightarrow> Inl e | Inr q \<Rightarrow> Inr (PyFloat q))) \<and>
   (format_balance balance decimals = Inr s \<longrightarrow>
      (\<exists>readable. readable_balance balance decimals = Inr readable \<and>
         ((\<exists>body. s = body @ ''M'') \<longleftrightarrow> 1000000 \<le> number_value readable) \<and>
         ((\<exists>body. s = body @ ''K'') \<longleftrightarrow>
            1000 \<le> number_value readable \<and> number_value readable < 1000000)))"
proof (intro conjI impI)
  show "readable_balance balance decimals = Inr (PyInt balance)" if "balance < 10 ^ 12"
    using that by (simp add: readable_balance_def)
  show "readable_balance balance decimals =
        (case to_float (of_int balance / of_int (10 ^ decimals)) of
           Inl e \<Rightarrow> Inl e | Inr q \<Rightarrow> Inr (PyFloat q))" if "10 ^ 12 \<le> balance"
    using that by (simp add: readable_balance_def)
next
  assume s: "format_balance balance decimals = Inr s"
  then obtain readable where r: "readable_balance balance decimals = Inr readable"
    by (auto simp: format_balance_def split: sum.splits)
  let ?v = "number_value readable"
  consider (m) "1000000 \<le> ?v" | (k) "1000 \<le> ?v" "?v < 1000000" | (p) "?v < 1000"
    by linarith
  then have "((\<exists>body. s = body @ ''M'') \<longleftrightarrow> 1000000 \<le> ?v) \<and>
         ((\<exists>body. s = body @ ''K'') \<longleftrightarrow> 1000 \<le> ?v \<and> ?v < 1000000)"
  proof cases
    case m
    with s r obtain q where "s = format_fixed 2 q @ ''M''"
      by (auto simp: format_balance_def split: sum.splits)
    with m show ?thesis by auto
  next
    case k
    with s r obtain q where "s = format_fixed 2 q @ ''K''"
      by (auto simp: format_balance_def split: sum.splits)
    with k show ?thesis by auto
  next
    case p
    with s r obtain q where "s = rstrip (CHR ''.'') (rstrip (CHR ''0'') (format_fixed 4 q))"
      by (auto simp: format_balance_def split: sum.splits)
    with p show ?thesis using plain_no_suffix by auto
  qed
  with r show "\<exists>readable. readable_balance balance decimals = Inr readable \<and>
         ((\<exists>body. s = body @ ''M'') \<longleftrightarrow> 1000000 \<le> number_value readable) \<and>
         ((\<exists>body. s = body @ ''K'') \<longleftrightarrow>
            1000 \<le> number_value readable \<and> number_value readable < 1000000)"
    by blast
qed

lemma format_example: "format_balance 1234567 18 = Inr ''1.23M''"
  by code_simp

lemma format_example_scaled: "format_balance (2500000 * 10 ^ 18) 18 = Inr ''2.50M''"
  by code_simp

lemma to_float_example_scaled:
  "to_float (of_int (2500000 * 10 ^ 18) / of_int (10 ^ 18)) = Inr 2500000"
  by code_simp

theorem format_balance_scaling_witness:
  "format_balance 1234567 18 = Inr ''1.23M'' \<and>
   readable_balance 1234567 18 = Inr (PyInt 1234567) \<and>
   1000000 \<le> number_value (PyInt 1234567) \<and>
   format_balance (2500000 * 10 ^ 18) 18 = Inr ''2.50M'' \<and>
   readable_balance (2500000 * 10 ^ 18) 18 = Inr (PyFloat 2500000)"
proof -
  note t1 = format_balance_scaling [of 1234567 18 "''1.23M''"]
  note t2 = format_balance_scaling [of "2500000 * 10 ^ 18" 18 "''2.50M''"]
  from t1 have "(1234567 :: int) < 10 ^ 12 \<longrightarrow>
      readable_balance 1234567 18 = Inr (PyInt 1234567)"
    by blast
  then have r1: "readable_balance 1234567 18 = Inr (PyInt 1234567)" by simp
  from t2 have "(10 :: int) ^ 12 \<le> 2500000 * 10 ^ 18 \<longrightarrow>
      readable_balance (2500000 * 10 ^ 18) 18 =
        (case to_float (of_int (2500000 * 10 ^ 18) / of_int (10 ^ 18)) of
           Inl e \<Rightarrow> Inl e | Inr q \<Rightarrow> Inr (PyFloat q))"
    by blast
  then have "readable_balance (2500000 * 10 ^ 18) 18 =
        (case to_float (of_int (2500000 * 10 ^ 18) / of_int (10 ^ 18)) of
           Inl e \<Rightarrow> Inl e | Inr q \<Rightarrow> Inr (PyFloat q))"
    by simp
  then have r2: "readable_balance (2500000 * 10 ^ 18) 18 = Inr (PyFloat 2500000)"
    by (simp only: to_float_example_scaled sum.case)
  from t1 format_example obtain readable
    where a: "readable_balance 1234567 18 = Inr readable"
      and b: "(\<exists>body. ''1.23M'' = body @ ''M'') \<longleftrightarrow> 1000000 \<le> number_value readable"
    by blast
  from a r1 have "readable = PyInt 1234567" by simp
  moreover have "\<exists>body. ''1.23M'' = body @ ''M''" by (rule exI [of _ "''1.23''"]) simp
  ultimately have m: "1000000 \<le> number_value (PyInt 1234567)" using b by blast
  show ?thesis by (intro conjI format_example r1 m format_example_scaled r2)
qed

end
